theory Spec2Isabelle
  imports Main "HOL-Library.Word"
begin

section \<open>Interval extraction from motion flags (reolink/interval/c\_interval.pyx)\<close>

text \<open>
  The Cython function \<open>c__motions2intervals_idx\<close> scans a Python list of motion flags
  once and returns the list of index pairs \<open>(start, end)\<close> of the runs of true flags
  that are followed by a false flag.

  Its locals \<open>x_idx\<close>, \<open>i\<close> and \<open>motion_list_size\<close> are declared \<open>cdef int\<close>: they are
  32-bit two's complement integers, modelled as \<open>32 word\<close> and read with \<open>sint\<close>. The
  argument is a list of flags (\<open>bool list\<close>); the returned tuples hold Python integers
  (\<open>int\<close>). An exception raised by the body is a value \<open>Inl\<close> of the result.

  The argument is taken to be a list object whose elements are Python booleans: the
  value \<open>None\<close>, which the signature \<open>list motions\<close> also admits, and elements whose
  conversion to \<open>bint\<close> raises are outside the model.
\<close>

type_synonym c_int = "32 word"

datatype py_error = IndexError

text \<open>
  \<open>len(motions)\<close> is a \<open>Py_ssize_t\<close>; storing it in the \<open>cdef int\<close>
  \<open>motion_list_size\<close> is a C conversion, which keeps the low 32 bits.
\<close>

definition c_len :: "'a list \<Rightarrow> c_int" where
  "c_len xs = word_of_nat (length xs)"

text \<open>
  \<open>motions[i]\<close> with a C integer index, under Cython's default directives
  (\<open>wraparound\<close> and \<open>boundscheck\<close> on): a negative index counts from the end, and an
  index outside the list raises \<open>IndexError\<close>.
\<close>

definition list_getitem :: "'a list \<Rightarrow> c_int \<Rightarrow> py_error + 'a" where
  "list_getitem xs i =
     (let n = int (length xs); k = sint i; j = (if k < 0 then k + n else k)
      in if 0 \<le> j \<and> j < n then Inr (xs ! nat j) else Inl IndexError)"

text \<open>
  The \<open>while i < motion_list_size\<close> loop, one recursive call per iteration; the
  arguments after \<open>motions\<close> and \<open>motion_list_size\<close> are the locals the loop updates.
  The value \<open>- 1\<close> of \<open>x_idx\<close> means that no run is open. The three branches are the
  three \<open>continue\<close> paths of the body, in the source's order; the third test of the
  source, \<open>if not x\<close>, is the \<open>else\<close> of the second, \<open>if x\<close>.
\<close>

function scan_loop ::
  "bool list \<Rightarrow> c_int \<Rightarrow> c_int \<Rightarrow> c_int \<Rightarrow> (int \<times> int) list \<Rightarrow> py_error + (int \<times> int) list"
where
  "scan_loop motions motion_list_size i x_idx motion_intervals =
     (if i <s motion_list_size then
        (case list_getitem motions i of
           Inl err \<Rightarrow> Inl err
         | Inr x \<Rightarrow>
             if x_idx = - 1 then
               scan_loop motions motion_list_size (i + 1) (if x then i else x_idx)
                 motion_intervals
             else if x then
               scan_loop motions motion_list_size (i + 1) x_idx motion_intervals
             else
               scan_loop motions motion_list_size (i + 1) (- 1)
                 (motion_intervals @ [(sint x_idx, sint i)]))
      else Inr motion_intervals)"
  by pat_completeness auto
termination
proof (relation "measure (\<lambda>(motions, n, i, x_idx, acc). nat (sint n - sint i))")
  show "wf (measure (\<lambda>(motions, n, i, x_idx, acc). nat (sint n - sint i)))"
    by simp
next
  have step: "sint (i + 1) = sint i + 1" if "i <s n" for i n :: c_int
  proof -
    have "sint n < 2 ^ 31"
      using sint_lt [of n] by simp
    moreover have "- (2 ^ 31) \<le> sint i"
      using sint_ge [of i] by simp
    ultimately have "signed_take_bit 31 (sint i + 1) = sint i + 1"
      using that by (intro signed_take_bit_int_eq_self) (simp_all add: word_sless_alt)
    then show ?thesis
      by (simp add: sint_word_add)
  qed
  fix motions :: "bool list" and n i x_idx :: c_int and acc :: "(int \<times> int) list"
  assume "i <s n"
  then have dec: "nat (sint n - sint (i + 1)) < nat (sint n - sint i)"
    by (simp add: step) (simp add: word_sless_alt)
  {
    fix x :: bool
    show "((motions, n, i + 1, if x then i else x_idx, acc), motions, n, i, x_idx, acc)
            \<in> measure (\<lambda>(motions, n, i, x_idx, acc). nat (sint n - sint i))"
      using dec by simp
  }
  show "((motions, n, i + 1, x_idx, acc), motions, n, i, x_idx, acc)
          \<in> measure (\<lambda>(motions, n, i, x_idx, acc). nat (sint n - sint i))"
    using dec by simp
  show "((motions, n, i + 1, - 1, acc @ [(sint x_idx, sint i)]), motions, n, i, x_idx, acc)
          \<in> measure (\<lambda>(motions, n, i, x_idx, acc). nat (sint n - sint i))"
    using dec by simp
qed

definition c__motions2intervals_idx :: "bool list \<Rightarrow> py_error + (int \<times> int) list" where
  "c__motions2intervals_idx motions =
     (let motion_intervals = [];
          x_idx = - 1;
          motion_list_size = c_len motions;
          i = 0
      in scan_loop motions motion_list_size i x_idx motion_intervals)"

section \<open>An invocation as a transition relation\<close>

text \<open>
  A second reading of the same source, statement by statement, for the properties that
  compare invocations. The frame holds the six locals of the function, one field per
  \<open>cdef\<close> declaration (the field names carry the suffix \<open>_v\<close>).
\<close>

record frame =
  motion_intervals_v :: "(int \<times> int) list"
  motion_idx_v :: "c_int \<times> c_int"
  x_idx_v :: c_int
  x_v :: bool
  motion_list_size_v :: c_int
  i_v :: c_int

text \<open>
  Entering the function runs the declarations of lines 2 to 7, each with its
  initialiser. The frame they start from is arbitrary: it stands for whatever the
  locals held before, for instance what an earlier invocation left there.
\<close>

definition enter :: "frame \<Rightarrow> bool list \<Rightarrow> frame" where
  "enter f motions =
     f\<lparr>motion_intervals_v := [],
       motion_idx_v := (0, 0),
       x_idx_v := - 1,
       x_v := False,
       motion_list_size_v := c_len motions,
       i_v := 0\<rparr>"

text \<open>
  One pass through the loop body (lines 11 to 25) from a frame: either the read
  \<open>motions[i]\<close> raises, or the pass ends in one of the three \<open>continue\<close> paths with
  the frame updated by the assignments on that path.
\<close>

inductive body :: "bool list \<Rightarrow> frame \<Rightarrow> py_error + frame \<Rightarrow> bool" where
  read_raises:
    "list_getitem motions (i_v f) = Inl err \<Longrightarrow> body motions f (Inl err)"
| looking_for_start:
    "list_getitem motions (i_v f) = Inr b \<Longrightarrow> x_idx_v f = - 1 \<Longrightarrow>
     body motions f
       (Inr (f\<lparr>x_v := b, x_idx_v := (if b then i_v f else x_idx_v f), i_v := i_v f + 1\<rparr>))"
| run_continues:
    "list_getitem motions (i_v f) = Inr b \<Longrightarrow> x_idx_v f \<noteq> - 1 \<Longrightarrow> b \<Longrightarrow>
     body motions f (Inr (f\<lparr>x_v := b, i_v := i_v f + 1\<rparr>))"
| run_closes:
    "list_getitem motions (i_v f) = Inr b \<Longrightarrow> x_idx_v f \<noteq> - 1 \<Longrightarrow> \<not> b \<Longrightarrow>
     body motions f
       (Inr (f\<lparr>x_v := b,
              motion_idx_v := (x_idx_v f, i_v f),
              motion_intervals_v := motion_intervals_v f @ [(sint (x_idx_v f), sint (i_v f))],
              x_idx_v := - 1,
              i_v := i_v f + 1\<rparr>))"

text \<open>
  The \<open>while\<close> loop: it ends when the test \<open>i < motion_list_size\<close> fails, it ends with
  the error when a pass raises, and otherwise it goes on from the frame the pass left.
\<close>

inductive while_loop :: "bool list \<Rightarrow> frame \<Rightarrow> py_error + frame \<Rightarrow> bool" where
  loop_exit:
    "\<not> i_v f <s motion_list_size_v f \<Longrightarrow> while_loop motions f (Inr f)"
| loop_raises:
    "i_v f <s motion_list_size_v f \<Longrightarrow> body motions f (Inl err) \<Longrightarrow>
     while_loop motions f (Inl err)"
| loop_again:
    "i_v f <s motion_list_size_v f \<Longrightarrow> body motions f (Inr f') \<Longrightarrow>
     while_loop motions f' r \<Longrightarrow> while_loop motions f r"

text \<open>
  An invocation on \<open>motions\<close>, started with the locals holding \<open>f\<close>: it returns the
  list \<open>motion_intervals\<close> of the final frame (line 27), or raises.
\<close>

inductive invocation :: "frame \<Rightarrow> bool list \<Rightarrow> py_error + (int \<times> int) list \<Rightarrow> bool" where
  returns:
    "while_loop motions (enter f motions) (Inr f') \<Longrightarrow>
     invocation f motions (Inr (motion_intervals_v f'))"
| raises:
    "while_loop motions (enter f motions) (Inl err) \<Longrightarrow> invocation f motions (Inl err)"

section \<open>Runs and the loop invariant\<close>

text \<open>
  A pair \<open>(start, end)\<close> is a closed run of \<open>motions\<close> when it lies inside the list,
  every flag from \<open>start\<close> up to \<open>end - 1\<close> is true, the flag at \<open>end\<close> is false, and
  \<open>start\<close> is the first index or follows a false flag.
\<close>

definition closed_run :: "bool list \<Rightarrow> int \<times> int \<Rightarrow> bool" where
  "closed_run motions p \<longleftrightarrow>
     0 \<le> fst p \<and> fst p < snd p \<and> snd p < int (length motions) \<and>
     (\<forall>j. fst p \<le> j \<and> j < snd p \<longrightarrow> motions ! nat j) \<and>
     \<not> motions ! nat (snd p) \<and>
     (fst p = 0 \<or> \<not> motions ! nat (fst p - 1))"

text \<open>
  The invariant of the loop, before the iteration at index \<open>i\<close>: the intervals
  appended so far are closed runs that end before \<open>i\<close>, each ending before the next
  starts; with no run open the flag before \<open>i\<close> is false (or \<open>i\<close> is 0); with a run
  open at \<open>x_idx\<close>, the flags from \<open>x_idx\<close> up to \<open>i - 1\<close> are true, the run starts at
  0 or after a false flag, and every interval appended so far ends before it.
\<close>

definition scan_inv :: "bool list \<Rightarrow> c_int \<Rightarrow> c_int \<Rightarrow> (int \<times> int) list \<Rightarrow> bool" where
  "scan_inv motions i x_idx acc \<longleftrightarrow>
     0 \<le> sint i \<and>
     (\<forall>p \<in> set acc. closed_run motions p \<and> snd p < sint i) \<and>
     sorted_wrt (\<lambda>p q. snd p < fst q) acc \<and>
     (if x_idx = - 1 then sint i = 0 \<or> \<not> motions ! nat (sint i - 1)
      else 0 \<le> sint x_idx \<and> sint x_idx < sint i \<and>
           (\<forall>p \<in> set acc. snd p < sint x_idx) \<and>
           (\<forall>j. sint x_idx \<le> j \<and> j < sint i \<longrightarrow> motions ! nat j) \<and>
           (sint x_idx = 0 \<or> \<not> motions ! nat (sint x_idx - 1)))"

section \<open>The loop\<close>

subsection \<open>The counter and one iteration\<close>

text \<open>Inside the loop the counter is below a 32-bit value, so \<open>i += 1\<close> does not wrap.\<close>

lemma sint_succ:
  fixes i n :: c_int
  assumes "i <s n"
  shows "sint (i + 1) = sint i + 1"
proof -
  have "sint n < 2 ^ 31"
    using sint_lt [of n] by simp
  moreover have "- (2 ^ 31) \<le> sint i"
    using sint_ge [of i] by simp
  ultimately have "signed_take_bit 31 (sint i + 1) = sint i + 1"
    using assms by (intro signed_take_bit_int_eq_self) (simp_all add: word_sless_alt)
  then show ?thesis
    by (simp add: sint_word_add)
qed

text \<open>One iteration of the loop, when the read at \<open>i\<close> succeeds.\<close>

lemma scan_loop_step:
  assumes "i <s n" and "list_getitem motions i = Inr x"
  shows "scan_loop motions n i x_idx acc =
     (if x_idx = - 1 then scan_loop motions n (i + 1) (if x then i else x_idx) acc
      else if x then scan_loop motions n (i + 1) x_idx acc
      else scan_loop motions n (i + 1) (- 1) (acc @ [(sint x_idx, sint i)]))"
  using assms by (subst scan_loop.simps) simp

subsection \<open>The list size and the index\<close>

text \<open>
  The low 32 bits of the length, read as a signed value, never exceed the length: the
  loop stays inside the list, also for a list of \<open>2 ^ 31\<close> flags or more.
\<close>

lemma sint_c_len_le: "sint (c_len xs) \<le> int (length xs)"
proof -
  have "(int (length xs) + 2 ^ 31) mod 2 ^ 32 \<le> int (length xs) + 2 ^ 31"
    by (rule zmod_le_nonneg_dividend) simp
  moreover have "sint (c_len xs) = (int (length xs) + 2 ^ 31) mod 2 ^ 32 - 2 ^ 31"
    using int_word_sint [where 'a = 32, of "int (length xs)"] by (simp add: c_len_def)
  ultimately show ?thesis
    by simp
qed

lemma list_getitem_in_range:
  assumes "0 \<le> sint i" and "sint i < int (length xs)"
  shows "list_getitem xs i = Inr (xs ! nat (sint i))"
  using assms by (simp add: list_getitem_def Let_def)

lemma nonneg_not_sentinel:
  fixes i :: c_int
  assumes "0 \<le> sint i"
  shows "i \<noteq> - 1"
  using assms by auto

subsection \<open>The invariant holds at loop entry and after each branch\<close>

lemma scan_inv_init: "scan_inv motions 0 (- 1) []"
  by (simp add: scan_inv_def)

lemma scan_inv_idle:
  assumes "scan_inv motions i (- 1) acc" and "i <s n" and "\<not> motions ! nat (sint i)"
  shows "scan_inv motions (i + 1) (- 1) acc"
  using assms by (auto simp: scan_inv_def sint_succ)

lemma scan_inv_open:
  assumes "scan_inv motions i (- 1) acc" and "i <s n" and "motions ! nat (sint i)"
  shows "scan_inv motions (i + 1) i acc"
proof -
  have "i \<noteq> - 1"
    using assms(1) by (intro nonneg_not_sentinel) (simp add: scan_inv_def)
  moreover have "j = sint i" if "sint i \<le> j" and "j < sint i + 1" for j
    using that by simp
  ultimately show ?thesis
    using assms by (auto simp: scan_inv_def sint_succ)
qed

lemma scan_inv_extend:
  assumes "scan_inv motions i x_idx acc" and "i <s n" and "x_idx \<noteq> - 1"
    and "motions ! nat (sint i)"
  shows "scan_inv motions (i + 1) x_idx acc"
proof -
  have "motions ! nat j" if "sint x_idx \<le> j" and "j < sint i + 1"
    and "\<forall>j. sint x_idx \<le> j \<and> j < sint i \<longrightarrow> motions ! nat j" for j
    using that assms(4) by (cases "j = sint i") auto
  then show ?thesis
    using assms by (auto simp: scan_inv_def sint_succ)
qed

lemma scan_inv_close:
  assumes "scan_inv motions i x_idx acc" and "i <s n" and "x_idx \<noteq> - 1"
    and "\<not> motions ! nat (sint i)" and "sint i < int (length motions)"
  shows "scan_inv motions (i + 1) (- 1) (acc @ [(sint x_idx, sint i)])"
  using assms by (auto simp: scan_inv_def sint_succ closed_run_def sorted_wrt_append)

subsection \<open>What the loop returns\<close>

text \<open>
  By computation induction on the loop: from a state that satisfies the invariant the
  loop returns a list, every index read is in range, and the list consists of closed
  runs, each ending before the next starts.
\<close>

lemma scan_loop_result:
  assumes "scan_inv motions i x_idx acc" and "sint n \<le> int (length motions)"
  shows "\<exists>res. scan_loop motions n i x_idx acc = Inr res \<and>
           (\<forall>p \<in> set res. closed_run motions p) \<and>
           sorted_wrt (\<lambda>p q. snd p < fst q) res"
  using assms
proof (induction motions n i x_idx acc rule: scan_loop.induct)
  case (1 motions n i x_idx acc)
  show ?case
  proof (cases "i <s n")
    case False
    then show ?thesis
      using "1.prems" by (simp add: scan_inv_def)
  next
    case True
    have nonneg: "0 \<le> sint i"
      using "1.prems"(1) by (simp add: scan_inv_def)
    have below: "sint i < int (length motions)"
      using True "1.prems"(2) by (simp add: word_sless_alt)
    define x where "x = motions ! nat (sint i)"
    have get: "list_getitem motions i = Inr x"
      using nonneg below by (simp add: list_getitem_in_range x_def)
    consider (idle) "x_idx = - 1" "\<not> x" | (start) "x_idx = - 1" "x"
      | (extend) "x_idx \<noteq> - 1" "x" | (close) "x_idx \<noteq> - 1" "\<not> x"
      by blast
    then show ?thesis
    proof cases
      case idle
      have "scan_inv motions (i + 1) (- 1) acc"
        using "1.prems"(1) True idle by (auto intro: scan_inv_idle simp: x_def)
      then show ?thesis
        using "1.IH"(1) [OF True get] idle "1.prems"(2) True get by simp
    next
      case start
      have "scan_inv motions (i + 1) i acc"
        using "1.prems"(1) True start by (auto intro: scan_inv_open simp: x_def)
      then show ?thesis
        using "1.IH"(1) [OF True get] start "1.prems"(2) True get by simp
    next
      case extend
      have "scan_inv motions (i + 1) x_idx acc"
        using "1.prems"(1) True extend by (auto intro: scan_inv_extend simp: x_def)
      then show ?thesis
        using "1.IH"(2) [OF True get] extend "1.prems"(2) True get by simp
    next
      case close
      have "scan_inv motions (i + 1) (- 1) (acc @ [(sint x_idx, sint i)])"
        using "1.prems"(1) True close below by (auto intro: scan_inv_close simp: x_def)
      then show ?thesis
        using "1.IH"(3) [OF True get] close "1.prems"(2) True get by simp
    qed
  qed
qed

lemma extract_result:
  "\<exists>res. c__motions2intervals_idx motions = Inr res \<and>
         (\<forall>p \<in> set res. closed_run motions p) \<and>
         sorted_wrt (\<lambda>p q. snd p < fst q) res"
  unfolding c__motions2intervals_idx_def Let_def
  by (rule scan_loop_result [OF scan_inv_init sint_c_len_le])

section \<open>Invocations as transitions\<close>

subsection \<open>Each step has one outcome\<close>

text \<open>
  The declarations assign every local, so the frame after them does not depend on the
  frame before. A pass through the body and the whole loop have at most one outcome
  from a given frame: the paths of the body exclude each other.
\<close>

lemma enter_fresh: "enter f motions = enter g motions"
  by (simp add: enter_def)

lemma body_deterministic:
  assumes "body motions f r1" and "body motions f r2"
  shows "r1 = r2"
  using assms by (auto elim!: body.cases)

lemma while_loop_deterministic:
  assumes "while_loop motions f r1" and "while_loop motions f r2"
  shows "r1 = r2"
  using assms
proof (induction arbitrary: r2 rule: while_loop.induct)
  case (loop_exit f motions)
  from loop_exit.prems loop_exit.hyps show ?case
    by (cases rule: while_loop.cases) auto
next
  case (loop_raises f motions err)
  from loop_raises.prems show ?case
  proof (cases rule: while_loop.cases)
    case loop_exit
    then show ?thesis
      using loop_raises.hyps by simp
  next
    case (loop_raises err')
    then show ?thesis
      using body_deterministic [OF \<open>body motions f (Inl err)\<close>] by blast
  next
    case (loop_again f')
    then show ?thesis
      using body_deterministic [OF \<open>body motions f (Inl err)\<close>, of "Inr f'"] by simp
  qed
next
  case (loop_again f motions f' r)
  from loop_again.prems show ?case
  proof (cases rule: while_loop.cases)
    case loop_exit
    then show ?thesis
      using loop_again.hyps by simp
  next
    case (loop_raises err)
    then show ?thesis
      using body_deterministic [OF \<open>body motions f (Inr f')\<close>, of "Inl err"] by simp
  next
    case inner: (loop_again g)
    then have "g = f'"
      using body_deterministic [OF \<open>body motions f (Inr f')\<close>, of "Inr g"] by simp
    then show ?thesis
      using inner loop_again.IH by blast
  qed
qed

subsection \<open>The transition relation and the function agree\<close>

text \<open>
  From every frame the loop has an outcome, and it is the value of \<open>scan_loop\<close> on the
  four locals the loop reads; so every invocation has the outcome
  \<open>c__motions2intervals_idx\<close> computes.
\<close>

lemma scan_loop_raise:
  assumes "i <s n" and "list_getitem motions i = Inl err"
  shows "scan_loop motions n i x_idx acc = Inl err"
  using assms by (subst scan_loop.simps) simp

lemma scan_loop_exit:
  assumes "\<not> i <s n"
  shows "scan_loop motions n i x_idx acc = Inr acc"
  using assms by (subst scan_loop.simps) simp

lemma while_loop_scan_loop:
  assumes "motion_list_size_v f = n" and "i_v f = i" and "x_idx_v f = x_idx"
    and "motion_intervals_v f = acc"
  shows "\<exists>r. while_loop motions f r \<and>
           map_sum (\<lambda>err. err) motion_intervals_v r = scan_loop motions n i x_idx acc"
  using assms
proof (induction motions n i x_idx acc arbitrary: f rule: scan_loop.induct)
  case (1 motions n i x_idx acc)
  note frame = "1.prems"
  show ?case
  proof (cases "i <s n")
    case False
    then have "while_loop motions f (Inr f)"
      using frame by (intro while_loop.loop_exit) simp
    then show ?thesis
      using False frame by (auto simp: scan_loop_exit simp del: scan_loop.simps)
  next
    case True
    then have cond: "i_v f <s motion_list_size_v f"
      using frame by simp
    show ?thesis
    proof (cases "list_getitem motions i")
      case (Inl err)
      then have "body motions f (Inl err)"
        using frame by (intro body.read_raises) simp
      with cond have "while_loop motions f (Inl err)"
        by (rule while_loop.loop_raises)
      then show ?thesis
        using True Inl by (auto simp: scan_loop_raise simp del: scan_loop.simps)
    next
      case (Inr b)
      then have get: "list_getitem motions (i_v f) = Inr b"
        using frame by simp
      consider (search) "x_idx = - 1" | (extend) "x_idx \<noteq> - 1" "b"
        | (close) "x_idx \<noteq> - 1" "\<not> b"
        by blast
      then show ?thesis
      proof cases
        case search
        define g where "g = f\<lparr>x_v := b, x_idx_v := (if b then i_v f else x_idx_v f), i_v := i_v f + 1\<rparr>"
        have "body motions f (Inr g)"
          unfolding g_def using get search frame by (intro body.looking_for_start) simp_all
        moreover obtain r where "while_loop motions g r"
          and "map_sum (\<lambda>err. err) motion_intervals_v r =
                 scan_loop motions n (i + 1) (if b then i else x_idx) acc"
          using "1.IH"(1) [OF True Inr search, of g] frame by (auto simp: g_def simp del: scan_loop.simps)
        ultimately show ?thesis
          using cond search by (auto simp: scan_loop_step [OF True Inr] simp del: scan_loop.simps intro: while_loop.loop_again)
      next
        case extend
        define g where "g = f\<lparr>x_v := b, i_v := i_v f + 1\<rparr>"
        have "body motions f (Inr g)"
          unfolding g_def using get extend frame by (intro body.run_continues) simp_all
        moreover obtain r where "while_loop motions g r"
          and "map_sum (\<lambda>err. err) motion_intervals_v r = scan_loop motions n (i + 1) x_idx acc"
          using "1.IH"(2) [OF True Inr extend, of g] frame by (auto simp: g_def simp del: scan_loop.simps)
        ultimately show ?thesis
          using cond extend by (auto simp: scan_loop_step [OF True Inr] simp del: scan_loop.simps intro: while_loop.loop_again)
      next
        case close
        define g where "g = f\<lparr>x_v := b,
              motion_idx_v := (x_idx_v f, i_v f),
              motion_intervals_v := motion_intervals_v f @ [(sint (x_idx_v f), sint (i_v f))],
              x_idx_v := - 1,
              i_v := i_v f + 1\<rparr>"
        have "body motions f (Inr g)"
          unfolding g_def using get close frame by (intro body.run_closes) simp_all
        moreover obtain r where "while_loop motions g r"
          and "map_sum (\<lambda>err. err) motion_intervals_v r =
                 scan_loop motions n (i + 1) (- 1) (acc @ [(sint x_idx, sint i)])"
          using "1.IH"(3) [OF True Inr close, of g] frame by (auto simp: g_def simp del: scan_loop.simps)
        ultimately show ?thesis
          using cond close by (auto simp: scan_loop_step [OF True Inr] simp del: scan_loop.simps intro: while_loop.loop_again)
      qed
    qed
  qed
qed

lemma invocation_result: "invocation f motions (c__motions2intervals_idx motions)"
proof -
  have "\<exists>r. while_loop motions (enter f motions) r \<and>
          map_sum (\<lambda>err. err) motion_intervals_v r = scan_loop motions (c_len motions) 0 (- 1) []"
    by (rule while_loop_scan_loop) (simp_all add: enter_def)
  moreover have "c__motions2intervals_idx motions = scan_loop motions (c_len motions) 0 (- 1) []"
    by (simp only: c__motions2intervals_idx_def Let_def)
  ultimately obtain r where run: "while_loop motions (enter f motions) r"
    and res: "map_sum (\<lambda>err. err) motion_intervals_v r = c__motions2intervals_idx motions"
    by auto
  show ?thesis
  proof (cases r)
    case (Inl err)
    then show ?thesis
      using run res invocation.raises [of motions f err] by simp
  next
    case (Inr g)
    then show ?thesis
      using run res invocation.returns [of motions f g] by simp
  qed
qed

section \<open>Properties of the extracted intervals\<close>

text \<open>
  The call starts the loop in a state that satisfies the invariant, so its result is a
  list of closed runs in increasing order.
\<close>

lemma extract_emitted:
  assumes "c__motions2intervals_idx motions = Inr res" and "p \<in> set res"
  shows "closed_run motions p"
  using extract_result [of motions] assms by auto

lemma extract_sorted:
  assumes "c__motions2intervals_idx motions = Inr res"
  shows "sorted_wrt (\<lambda>p q. snd p < fst q) res"
  using extract_result [of motions] assms by auto

text \<open>
  Claim C1. A run of true flags that reaches the end of the list is not emitted: when
  every flag from index \<open>t\<close> on is true, the pair \<open>(t, N)\<close> is not in the result and
  every emitted interval ends before \<open>t\<close>. In particular the result for \<open>N\<close> true
  flags is the empty list, for every \<open>N\<close>.
\<close>

theorem trailing_run_dropped:
  "(c__motions2intervals_idx motions = Inr res \<and>
    (\<forall>j. t \<le> j \<and> j < length motions \<longrightarrow> motions ! j) \<longrightarrow>
      (int t, int (length motions)) \<notin> set res \<and> (\<forall>p \<in> set res. snd p < int t)) \<and>
   c__motions2intervals_idx (replicate N True) = Inr []"
proof (intro conjI impI)
  assume h: "c__motions2intervals_idx motions = Inr res \<and>
    (\<forall>j. t \<le> j \<and> j < length motions \<longrightarrow> motions ! j)"
  show before: "\<forall>p \<in> set res. snd p < int t"
  proof
    fix p
    assume "p \<in> set res"
    then have run: "closed_run motions p"
      using h by (auto intro: extract_emitted)
    then have "nat (snd p) < length motions" and "\<not> motions ! nat (snd p)"
      by (auto simp: closed_run_def)
    then have "\<not> t \<le> nat (snd p)"
      using h by blast
    then show "snd p < int t"
      by simp
  qed
  show "(int t, int (length motions)) \<notin> set res"
  proof
    assume "(int t, int (length motions)) \<in> set res"
    then have "closed_run motions (int t, int (length motions))"
      using h by (auto intro: extract_emitted)
    then show False
      by (simp add: closed_run_def)
  qed
next
  obtain res where res: "c__motions2intervals_idx (replicate N True) = Inr res"
    and runs: "\<forall>p \<in> set res. closed_run (replicate N True) p"
    using extract_result [of "replicate N True"] by blast
  have "res = []"
  proof (cases res)
    case (Cons p ps)
    then have "closed_run (replicate N True) p"
      using runs by simp
    then show ?thesis
      by (auto simp: closed_run_def)
  qed simp
  then show "c__motions2intervals_idx (replicate N True) = Inr []"
    using res by simp
qed

theorem trailing_run_dropped_witness:
  "c__motions2intervals_idx [True, False, True, False, True, True] = Inr [(0, 1), (2, 3)] \<and>
   [True, False, True, False, True, True] ! 4 \<and>
   [True, False, True, False, True, True] ! 5 \<and>
   (int 4, int (length [True, False, True, False, True, True])) \<notin> set [(0, 1), (2, 3)] \<and>
   snd (0 :: int, 1 :: int) < int 4 \<and> snd (2 :: int, 3 :: int) < int 4 \<and>
   c__motions2intervals_idx (replicate 3 True) = Inr []"
proof -
  have run: "c__motions2intervals_idx [True, False, True, False, True, True] = Inr [(0, 1), (2, 3)]"
    by code_simp
  have tail: "\<forall>j. 4 \<le> j \<and> j < length [True, False, True, False, True, True]
      \<longrightarrow> [True, False, True, False, True, True] ! j"
    by (simp add: nth_Cons')
  have "((int 4, int (length [True, False, True, False, True, True])) \<notin> set [(0, 1), (2, 3)] \<and>
         (\<forall>p \<in> set ([(0, 1), (2, 3)] :: (int \<times> int) list). snd p < int 4)) \<and>
        c__motions2intervals_idx (replicate 3 True) = Inr []"
    using trailing_run_dropped [of "[True, False, True, False, True, True]" "[(0, 1), (2, 3)]" 4 3]
      run tail by blast
  then show ?thesis
    using run by simp
qed

text \<open>
  Claim C2. Every index \<open>j\<close> with \<open>s \<le> j < e\<close> of an emitted interval \<open>(s, e)\<close> is an
  index of the list, and the flag there is true.
\<close>

theorem emitted_flags_true:
  assumes "c__motions2intervals_idx motions = Inr res"
    and "(s, e) \<in> set res"
    and "s \<le> j" and "j < e"
  shows "0 \<le> j \<and> nat j < length motions \<and> motions ! nat j"
proof -
  have "closed_run motions (s, e)"
    using assms(1,2) by (rule extract_emitted)
  then show ?thesis
    using assms(3,4) by (auto simp: closed_run_def)
qed

theorem emitted_flags_true_witness:
  "c__motions2intervals_idx [False, True, True, False] = Inr [(1, 3)] \<and>
   (1, 3) \<in> set ([(1, 3)] :: (int \<times> int) list) \<and> (1 :: int) \<le> 2 \<and> (2 :: int) < 3 \<and>
   (0 :: int) \<le> 2 \<and> nat 2 < length [False, True, True, False] \<and>
   [False, True, True, False] ! nat 2"
proof -
  have run: "c__motions2intervals_idx [False, True, True, False] = Inr [(1, 3)]"
    by code_simp
  have mem: "(1, 3) \<in> set ([(1, 3)] :: (int \<times> int) list)"
    by simp
  show ?thesis
    using emitted_flags_true [OF run mem, of 2] run by simp
qed

text \<open>
  Claim C3. Every emitted interval \<open>(s, e)\<close> satisfies \<open>0 \<le> s < e \<le> N\<close>, where \<open>N\<close> is
  the length of the list.
\<close>

theorem emitted_bounds:
  assumes "c__motions2intervals_idx motions = Inr res"
    and "(s, e) \<in> set res"
  shows "0 \<le> s \<and> s < e \<and> e \<le> int (length motions)"
proof -
  have "closed_run motions (s, e)"
    using assms by (rule extract_emitted)
  then show ?thesis
    by (simp add: closed_run_def)
qed

theorem emitted_bounds_witness:
  "c__motions2intervals_idx [False, True, False, True, False] = Inr [(1, 2), (3, 4)] \<and>
   (3, 4) \<in> set ([(1, 2), (3, 4)] :: (int \<times> int) list) \<and>
   (0 :: int) \<le> 3 \<and> (3 :: int) < 4 \<and> 4 \<le> int (length [False, True, False, True, False])"
proof -
  have run: "c__motions2intervals_idx [False, True, False, True, False] = Inr [(1, 2), (3, 4)]"
    by code_simp
  have mem: "(3, 4) \<in> set ([(1, 2), (3, 4)] :: (int \<times> int) list)"
    by simp
  show ?thesis
    using emitted_bounds [OF run mem] run by simp
qed

text \<open>
  Claim C4. In output order the starts strictly increase and the intervals do not
  overlap: an interval emitted earlier ends at or before the start of every interval
  emitted later, consecutive ones included.
\<close>

theorem emitted_ordered_disjoint:
  assumes "c__motions2intervals_idx motions = Inr res"
    and "k < l" and "l < length res"
  shows "fst (res ! k) < fst (res ! l) \<and> snd (res ! k) \<le> fst (res ! l)"
proof -
  have "sorted_wrt (\<lambda>p q. snd p < fst q) res"
    using assms(1) by (rule extract_sorted)
  then have gap: "snd (res ! k) < fst (res ! l)"
    using assms(2,3) by (simp add: sorted_wrt_iff_nth_less)
  have "res ! k \<in> set res"
    using assms(2,3) by simp
  then have "closed_run motions (res ! k)"
    using assms(1) by (auto intro: extract_emitted)
  then have "fst (res ! k) < snd (res ! k)"
    by (simp add: closed_run_def)
  then show ?thesis
    using gap by simp
qed

theorem emitted_ordered_disjoint_witness:
  "c__motions2intervals_idx [True, False, True, False, True, True] = Inr [(0, 1), (2, 3)] \<and>
   (0 :: nat) < 1 \<and> 1 < length ([(0, 1), (2, 3)] :: (int \<times> int) list) \<and>
   fst (([(0, 1), (2, 3)] :: (int \<times> int) list) ! 0) < fst (([(0, 1), (2, 3)] :: (int \<times> int) list) ! 1) \<and>
   snd (([(0, 1), (2, 3)] :: (int \<times> int) list) ! 0) \<le> fst (([(0, 1), (2, 3)] :: (int \<times> int) list) ! 1)"
proof -
  have run: "c__motions2intervals_idx [True, False, True, False, True, True] = Inr [(0, 1), (2, 3)]"
    by code_simp
  have lt: "(0 :: nat) < 1"
    by simp
  have len: "1 < length ([(0, 1), (2, 3)] :: (int \<times> int) list)"
    by simp
  show ?thesis
    using emitted_ordered_disjoint [OF run lt len] run by simp
qed

text \<open>
  Claim C5. Every emitted interval starts at index 0 or right after a false flag, and
  between two consecutive emitted intervals \<open>(s1, e1)\<close>, \<open>(s2, e2)\<close> there is an index
  \<open>j\<close> of the list with \<open>e1 \<le> j < s2\<close> whose flag is false.
\<close>

theorem emitted_left_maximal_separated:
  assumes "c__motions2intervals_idx motions = Inr res"
  shows "(\<forall>p \<in> set res.
            fst p = 0 \<or> 0 < fst p \<and> nat (fst p - 1) < length motions \<and> \<not> motions ! nat (fst p - 1)) \<and>
         (\<forall>k. Suc k < length res \<longrightarrow>
            (\<exists>j. snd (res ! k) \<le> j \<and> j < fst (res ! Suc k) \<and>
                 0 \<le> j \<and> nat j < length motions \<and> \<not> motions ! nat j))"
proof (intro conjI ballI allI impI)
  fix p
  assume "p \<in> set res"
  then have "closed_run motions p"
    using assms by (auto intro: extract_emitted)
  then show "fst p = 0 \<or> 0 < fst p \<and> nat (fst p - 1) < length motions \<and> \<not> motions ! nat (fst p - 1)"
    by (auto simp: closed_run_def)
next
  fix k
  assume k: "Suc k < length res"
  have "sorted_wrt (\<lambda>p q. snd p < fst q) res"
    using assms by (rule extract_sorted)
  then have gap: "snd (res ! k) < fst (res ! Suc k)"
    using k by (simp add: sorted_wrt_iff_nth_less)
  have "res ! k \<in> set res"
    using k by simp
  then have "closed_run motions (res ! k)"
    using assms by (auto intro: extract_emitted)
  then have "0 \<le> snd (res ! k)" and "nat (snd (res ! k)) < length motions"
    and "\<not> motions ! nat (snd (res ! k))"
    by (auto simp: closed_run_def)
  then show "\<exists>j. snd (res ! k) \<le> j \<and> j < fst (res ! Suc k) \<and>
                 0 \<le> j \<and> nat j < length motions \<and> \<not> motions ! nat j"
    using gap by blast
qed

theorem emitted_left_maximal_separated_witness:
  "c__motions2intervals_idx [False, True, False, True, False] = Inr [(1, 2), (3, 4)] \<and>
   (0 :: int) < 3 \<and> nat (3 - 1) < length [False, True, False, True, False] \<and>
   \<not> [False, True, False, True, False] ! nat (3 - 1) \<and>
   (\<exists>j. (2 :: int) \<le> j \<and> j < 3 \<and> 0 \<le> j \<and> nat j < length [False, True, False, True, False] \<and>
        \<not> [False, True, False, True, False] ! nat j)"
proof -
  have run: "c__motions2intervals_idx [False, True, False, True, False] = Inr [(1, 2), (3, 4)]"
    by code_simp
  note maximal = emitted_left_maximal_separated [OF run]
  have "(3, 4) \<in> set ([(1, 2), (3, 4)] :: (int \<times> int) list)"
    by simp
  with maximal have left: "fst (3 :: int, 4 :: int) = 0 \<or>
      0 < fst (3 :: int, 4 :: int) \<and>
      nat (fst (3 :: int, 4 :: int) - 1) < length [False, True, False, True, False] \<and>
      \<not> [False, True, False, True, False] ! nat (fst (3 :: int, 4 :: int) - 1)"
    by blast
  have "Suc 0 < length ([(1, 2), (3, 4)] :: (int \<times> int) list)"
    by simp
  with maximal have gap: "\<exists>j. snd (([(1, 2), (3, 4)] :: (int \<times> int) list) ! 0) \<le> j \<and>
      j < fst (([(1, 2), (3, 4)] :: (int \<times> int) list) ! Suc 0) \<and>
      0 \<le> j \<and> nat j < length [False, True, False, True, False] \<and>
      \<not> [False, True, False, True, False] ! nat j"
    by blast
  show ?thesis
    using run left gap by simp
qed

text \<open>
  Claim C6. A list without a true flag, the empty list and the all-false lists
  included, gives the empty interval list.
\<close>

theorem no_true_flag_no_interval:
  assumes "True \<notin> set motions"
  shows "c__motions2intervals_idx motions = Inr []"
proof -
  obtain res where res: "c__motions2intervals_idx motions = Inr res"
    and runs: "\<forall>p \<in> set res. closed_run motions p"
    using extract_result [of motions] by blast
  have "res = []"
  proof (cases res)
    case (Cons p ps)
    then have run: "closed_run motions p"
      using runs by simp
    then have "nat (fst p) < length motions" and "motions ! nat (fst p)"
      by (auto simp: closed_run_def)
    then have "True \<in> set motions"
      using nth_mem by fastforce
    then show ?thesis
      using assms by blast
  qed simp
  then show ?thesis
    using res by simp
qed

theorem no_true_flag_no_interval_witness:
  "True \<notin> set [False, False] \<and> c__motions2intervals_idx [False, False] = Inr [] \<and>
   True \<notin> set ([] :: bool list) \<and> c__motions2intervals_idx [] = Inr []"
proof -
  have two: "True \<notin> set [False, False]"
    by simp
  have none: "True \<notin> set ([] :: bool list)"
    by simp
  show ?thesis
    using no_true_flag_no_interval [OF two] no_true_flag_no_interval [OF none] by simp
qed

text \<open>
  Claim C7. The two rows of the scenario table: \<open>[False, True, True, False]\<close> gives
  \<open>[(1, 3)]\<close>, and \<open>[True, False, True, False, True, True]\<close> gives \<open>[(0, 1), (2, 3)]\<close>.
\<close>

theorem scenario_table:
  "c__motions2intervals_idx [False, True, True, False] = Inr [(1, 3)] \<and>
   c__motions2intervals_idx [True, False, True, False, True, True] = Inr [(0, 1), (2, 3)]"
  by code_simp



text \<open>
  Claim C9. Any two invocations on the same list of flags give the same result,
  whatever the locals held when each invocation started: the result depends on the
  list alone.
\<close>

theorem invocations_agree:
  assumes "invocation f1 motions r1" and "invocation f2 motions r2"
  shows "r1 = r2"
proof -
  have same: "enter f2 motions = enter f1 motions"
    by (rule enter_fresh)
  from assms(1) obtain o1 where run1: "while_loop motions (enter f1 motions) o1"
    and r1: "r1 = map_sum (\<lambda>err. err) motion_intervals_v o1"
    by (cases rule: invocation.cases) auto
  from assms(2) obtain o2 where run2: "while_loop motions (enter f1 motions) o2"
    and r2: "r2 = map_sum (\<lambda>err. err) motion_intervals_v o2"
    unfolding same [symmetric] by (cases rule: invocation.cases) (auto simp: same)
  have "o1 = o2"
    using run1 run2 by (rule while_loop_deterministic)
  then show ?thesis
    using r1 r2 by simp
qed

theorem invocations_agree_witness:
  "invocation
     \<lparr>motion_intervals_v = [(5, 9)], motion_idx_v = (3, 4), x_idx_v = 7, x_v = True,
      motion_list_size_v = 100, i_v = 42\<rparr>
     [False, True, True, False] (Inr [(1, 3)]) \<and>
   invocation
     \<lparr>motion_intervals_v = [], motion_idx_v = (0, 0), x_idx_v = - 1, x_v = False,
      motion_list_size_v = 0, i_v = 0\<rparr>
     [False, True, True, False] (Inr [(1, 3)]) \<and>
   (Inr [(1, 3)] :: py_error + (int \<times> int) list) = Inr [(1, 3)]"
proof -
  have val: "c__motions2intervals_idx [False, True, True, False] = Inr [(1, 3)]"
    by code_simp
  have run1: "invocation
     \<lparr>motion_intervals_v = [(5, 9)], motion_idx_v = (3, 4), x_idx_v = 7, x_v = True,
      motion_list_size_v = 100, i_v = 42\<rparr>
     [False, True, True, False] (Inr [(1, 3)])"
    using invocation_result [of _ "[False, True, True, False]"] by (simp add: val)
  have run2: "invocation
     \<lparr>motion_intervals_v = [], motion_idx_v = (0, 0), x_idx_v = - 1, x_v = False,
      motion_list_size_v = 0, i_v = 0\<rparr>
     [False, True, True, False] (Inr [(1, 3)])"
    using invocation_result [of _ "[False, True, True, False]"] by (simp add: val)
  show ?thesis
    using invocations_agree [OF run1 run2] run1 run2 by simp
qed

text \<open>
  Claim C10. The end \<open>e\<close> of every emitted interval is an index of the list, \<open>e < N\<close>,
  and the flag at \<open>e\<close> is false.
\<close>

theorem emitted_end_false:
  assumes "c__motions2intervals_idx motions = Inr res"
    and "(s, e) \<in> set res"
  shows "0 \<le> e \<and> e < int (length motions) \<and> \<not> motions ! nat e"
proof -
  have "closed_run motions (s, e)"
    using assms by (rule extract_emitted)
  then show ?thesis
    by (simp add: closed_run_def)
qed

theorem emitted_end_false_witness:
  "c__motions2intervals_idx [True, False, True, False, True, True] = Inr [(0, 1), (2, 3)] \<and>
   (2, 3) \<in> set ([(0, 1), (2, 3)] :: (int \<times> int) list) \<and>
   (0 :: int) \<le> 3 \<and> 3 < int (length [True, False, True, False, True, True]) \<and>
   \<not> [True, False, True, False, True, True] ! nat 3"
proof -
  have run: "c__motions2intervals_idx [True, False, True, False, True, True] = Inr [(0, 1), (2, 3)]"
    by code_simp
  have mem: "(2, 3) \<in> set ([(0, 1), (2, 3)] :: (int \<times> int) list)"
    by simp
  show ?thesis
    using emitted_end_false [OF run mem] run by simp
qed

end
